theory Spec2Isabelle
  imports Complex_Main "HOL-Library.Log_Nat" "HOL-Library.Multiset" "HOL-Library.AList"
begin

section \<open>Numbers: Python floats as correctly rounded rationals\<close>

text \<open>
  \<^verbatim>\<open>score.py\<close> multiplies an integer point total by a float multiplier and sums the
  products, so its point totals are IEEE-754 doubles. A finite double is modelled by the
  rational it denotes, and every float operation by the exact operation followed by
  \<open>double_round\<close>: rounding to the nearest number with a 53-bit significand, ties to the
  even significand. The exponent range is not bounded (no overflow to infinity, no
  subnormals): every non-zero number of this program is at least 2 and far below
  \<open>2 ^ 1023\<close>.
\<close>

definition ilog2 :: "rat \<Rightarrow> int" where
  \<comment> \<open>\<open>\<lfloor>log\<^sub>2 x\<rfloor>\<close> for \<open>0 < x\<close>\<close>
  "ilog2 x = (if 1 \<le> x then bitlen \<lfloor>x\<rfloor> - 1 else - bitlen (\<lceil>1 / x\<rceil> - 1))"

definition pow2 :: "int \<Rightarrow> rat" where
  "pow2 e = (if 0 \<le> e then 2 ^ nat e else 1 / 2 ^ nat (- e))"

definition round_half_even :: "rat \<Rightarrow> int" where
  "round_half_even x =
     (let f = \<lfloor>x\<rfloor>; d = x - of_int f
      in if d < 1 / 2 then f
         else if 1 / 2 < d then f + 1
         else if even f then f else f + 1)"

definition round_pos :: "rat \<Rightarrow> rat" where
  "round_pos x = (let q = pow2 (ilog2 x - 52) in of_int (round_half_even (x / q)) * q)"

definition double_round :: "rat \<Rightarrow> rat" where
  "double_round x = (if x = 0 then 0 else if 0 < x then round_pos x else - round_pos (- x))"

definition fmul :: "rat \<Rightarrow> rat \<Rightarrow> rat" where
  "fmul a b = double_round (a * b)"

definition fadd :: "rat \<Rightarrow> rat \<Rightarrow> rat" where
  "fadd a b = double_round (a + b)"

definition float_of_int :: "int \<Rightarrow> rat" where
  \<comment> \<open>\<^verbatim>\<open>float(n)\<close>, and the conversion of an int operand of a mixed operation\<close>
  "float_of_int n = double_round (of_int n)"

section \<open>Strings and the regular expressions of \<^verbatim>\<open>score.py\<close>\<close>

text \<open>
  A Python \<^verbatim>\<open>str\<close> is modelled as a \<open>string\<close> whose characters are the code points
  below 256. Each compiled pattern of the source is translated by hand into the function
  that decides \<^verbatim>\<open>pattern.search(s)\<close>.
\<close>

definition code :: "char \<Rightarrow> nat" where
  "code c = of_char c"

definition lower :: "char \<Rightarrow> char" where
  \<comment> \<open>\<^verbatim>\<open>re.IGNORECASE\<close> against an ASCII letter of the pattern: only A-Z fold\<close>
  "lower c = (if 65 \<le> code c \<and> code c \<le> 90 then char_of (code c + 32) else c)"

definition is_word :: "char \<Rightarrow> bool" where
  \<comment> \<open>\<^verbatim>\<open>\w\<close> of a str pattern: alphanumeric code points and the underscore\<close>
  "is_word c =
     (let n = code c
      in (48 \<le> n \<and> n \<le> 57) \<or> (65 \<le> n \<and> n \<le> 90) \<or> n = 95 \<or> (97 \<le> n \<and> n \<le> 122)
         \<or> n = 170 \<or> n = 178 \<or> n = 179 \<or> n = 181 \<or> n = 185 \<or> n = 186
         \<or> (188 \<le> n \<and> n \<le> 190) \<or> (192 \<le> n \<and> n \<le> 214) \<or> (216 \<le> n \<and> n \<le> 246)
         \<or> 248 \<le> n)"

fun starts_with :: "string \<Rightarrow> string \<Rightarrow> bool" where
  \<comment> \<open>the literal \<open>w\<close> matches at the start of \<open>s\<close>\<close>
  "starts_with [] s = True"
| "starts_with (a # w) [] = False"
| "starts_with (a # w) (c # s) = (a = c \<and> starts_with w s)"

fun starts_with_ci :: "string \<Rightarrow> string \<Rightarrow> bool" where
  \<comment> \<open>the same, ignoring case; the literals of the source are in lower case\<close>
  "starts_with_ci [] s = True"
| "starts_with_ci (a # w) [] = False"
| "starts_with_ci (a # w) (c # s) = (a = lower c \<and> starts_with_ci w s)"

definition newline :: char where
  "newline = CHR 0x0A"

definition core_pattern_1 :: "string \<Rightarrow> bool" where
  \<comment> \<open>\<^verbatim>\<open>^(posthog|plugin-server|frontend|backend|hogvm|hogql|ee|api|src|apps)/\<close>\<close>
  "core_pattern_1 p =
     list_ex (\<lambda>d. starts_with (d @ ''/'') p)
       [''posthog'', ''plugin-server'', ''frontend'', ''backend'', ''hogvm'', ''hogql'',
        ''ee'', ''api'', ''src'', ''apps'']"

definition core_pattern_2 :: "string \<Rightarrow> bool" where
  \<comment> \<open>\<^verbatim>\<open>^(infrastructure|terraform|ops|docker|.github|helm|kubernetes)/\<close>: the dot is
      not escaped and matches any character but a newline\<close>
  "core_pattern_2 p =
     (list_ex (\<lambda>d. starts_with (d @ ''/'') p)
        [''infrastructure'', ''terraform'', ''ops'', ''docker'', ''helm'', ''kubernetes'']
      \<or> (case p of [] \<Rightarrow> False | c # r \<Rightarrow> c \<noteq> newline \<and> starts_with ''github/'' r))"

definition ends_component :: "string \<Rightarrow> bool" where
  \<comment> \<open>\<^verbatim>\<open>(/|$)\<close>: a slash, the end of the string, or a newline that ends the string\<close>
  "ends_component r = (case r of [] \<Rightarrow> True | c # r' \<Rightarrow> c = CHR ''/'' \<or> (c = newline \<and> r' = []))"

definition name_here :: "string list \<Rightarrow> string \<Rightarrow> bool" where
  "name_here names s =
     list_ex (\<lambda>w. starts_with_ci w s \<and> ends_component (drop (length w) s)) names"

fun component_search :: "string list \<Rightarrow> bool \<Rightarrow> string \<Rightarrow> bool" where
  \<comment> \<open>\<^verbatim>\<open>(^|/)(n1|n2|...)(/|$)\<close> with IGNORECASE, searched from the current position; the
      flag says that the position is the start of the string or follows a slash\<close>
  "component_search names at_boundary [] = (at_boundary \<and> name_here names [])"
| "component_search names at_boundary (c # s) =
     ((at_boundary \<and> name_here names (c # s)) \<or> component_search names (c = CHR ''/'') s)"

definition TEST_DOC_RE :: "string \<Rightarrow> bool" where
  "TEST_DOC_RE p =
     component_search [''test'', ''tests'', ''__tests__'', ''docs'', ''doc'', ''documentation''] True p"

definition INFRA_RE :: "string \<Rightarrow> bool" where
  "INFRA_RE p =
     component_search [''.github'', ''ci'', ''infra'', ''infrastructure'', ''terraform'', ''docker'',
       ''kubernetes'', ''helm''] True p"

definition word_here :: "string \<Rightarrow> bool" where
  \<comment> \<open>one of the alternatives, followed by \<^verbatim>\<open>\b\<close>\<close>
  "word_here s =
     list_ex (\<lambda>w. starts_with_ci w s \<and> (case drop (length w) s of [] \<Rightarrow> True | c # _ \<Rightarrow> \<not> is_word c))
       [''fix'', ''bug'', ''regress'', ''hotfix'', ''incident'', ''crash'']"

fun word_search :: "bool \<Rightarrow> string \<Rightarrow> bool" where
  \<comment> \<open>the flag says that the previous character is a word character\<close>
  "word_search prev_word [] = False"
| "word_search prev_word (c # s) = ((\<not> prev_word \<and> word_here (c # s)) \<or> word_search (is_word c) s)"

definition BUGFIX_RE :: "string \<Rightarrow> bool" where
  \<comment> \<open>\<^verbatim>\<open>\b(fix|bug|regress|hotfix|incident|crash)\b\<close> with IGNORECASE\<close>
  "BUGFIX_RE t = word_search False t"

section \<open>The scoring model (\<^verbatim>\<open>score.py\<close>)\<close>

definition W_BASE_PR :: int where "W_BASE_PR = 10"
definition W_SIZE_M :: int where "W_SIZE_M = 4"
definition W_SIZE_L :: int where "W_SIZE_L = 8"
definition W_TESTS_DOCS :: int where "W_TESTS_DOCS = 2"
definition W_BUGFIX :: int where "W_BUGFIX = 3"
definition W_INFRA_TOOLING :: int where "W_INFRA_TOOLING = 3"
definition W_REVIEW :: int where "W_REVIEW = 2"
definition W_REVIEW_EARLY :: int where "W_REVIEW_EARLY = 1"

definition float_1_3 :: rat where
  \<comment> \<open>the double that the literal \<^verbatim>\<open>1.3\<close> denotes\<close>
  "float_1_3 = 5854679515581645 / 4503599627370496"

definition CORE_MULTIPLIERS :: "((string \<Rightarrow> bool) \<times> rat) list" where
  "CORE_MULTIPLIERS = [(core_pattern_1, float_1_3), (core_pattern_2, 5 / 4)]"

definition DEFAULT_MULT :: rat where "DEFAULT_MULT = 1"

datatype bucket = S | M | L

definition pr_size_bucket :: "int \<Rightarrow> int \<Rightarrow> int \<Rightarrow> bucket" where
  "pr_size_bucket changed_files additions deletions =
     (let churn = additions + deletions
      in if changed_files \<le> 5 \<and> churn \<le> 200 then S
         else if changed_files \<le> 20 \<and> churn \<le> 800 then M
         else L)"

fun first_match :: "((string \<Rightarrow> bool) \<times> rat) list \<Rightarrow> string list \<Rightarrow> rat" where
  \<comment> \<open>the loop of \<^verbatim>\<open>core_multiplier\<close>\<close>
  "first_match [] files = DEFAULT_MULT"
| "first_match ((pattern, mlt) # rest) files =
     (if list_ex pattern files then mlt else first_match rest files)"

definition core_multiplier :: "string list \<Rightarrow> rat" where
  "core_multiplier files = first_match CORE_MULTIPLIERS files"

definition has_tests_or_docs :: "string list \<Rightarrow> bool" where
  "has_tests_or_docs files = list_ex TEST_DOC_RE files"

definition is_bugfix :: "string \<Rightarrow> bool" where
  "is_bugfix title = BUGFIX_RE title"

definition is_infra_or_tooling :: "string list \<Rightarrow> bool" where
  "is_infra_or_tooling files = list_ex INFRA_RE files"

subsection \<open>The activity table\<close>

text \<open>
  The scoring engine reads the table that ingestion froze. A timestamp is the instant its
  ISO string denotes, in microseconds (the resolution of \<^verbatim>\<open>datetime\<close>); a review's
  \<^verbatim>\<open>submittedAt\<close> is \<open>None\<close> where the source's value is falsy (null or empty). The
  table type has no null author or title and its list-valued cells are lists, so the five
  clean-up assignments at the head of \<^verbatim>\<open>main\<close> leave it as it is.
\<close>

record review =
  reviewer :: string
  state :: "string option"
  submittedAt :: "int option"

record activity =
  number :: int
  title :: string
  url :: string
  author :: string
  createdAt :: int
  mergedAt :: int
  updatedAt :: "int option"
  changedFiles :: int
  additions :: int
  deletions :: int
  commentCount :: int
  labels :: "string list"
  files :: "string list"
  reviews :: "review list"

subsection \<open>Dictionaries, formatting\<close>

type_synonym 'v dict = "(string \<times> 'v) list"

definition dict_get :: "'v dict \<Rightarrow> string \<Rightarrow> 'v \<Rightarrow> 'v" where
  \<comment> \<open>\<^verbatim>\<open>d.get(k, default)\<close>; \<^verbatim>\<open>d[k] = v\<close> is \<open>AList.update k v d\<close>, which keeps the
      position of a key already there and appends a new one, as a Python dict does\<close>
  "dict_get d k dflt = (case map_of d k of None \<Rightarrow> dflt | Some v \<Rightarrow> v)"

definition digit :: "nat \<Rightarrow> char" where
  "digit d = char_of (48 + d)"

fun show_nat :: "nat \<Rightarrow> string" where
  "show_nat n = (if n < 10 then [digit n] else show_nat (n div 10) @ [digit (n mod 10)])"

declare show_nat.simps [simp del]

definition show_int :: "int \<Rightarrow> string" where
  "show_int i = (if i < 0 then ''-'' @ show_nat (nat (- i)) else show_nat (nat i))"

definition show_bucket :: "bucket \<Rightarrow> string" where
  "show_bucket b = (case b of S \<Rightarrow> ''S'' | M \<Rightarrow> ''M'' | L \<Rightarrow> ''L'')"

definition show_mult :: "rat \<Rightarrow> string" where
  \<comment> \<open>\<^verbatim>\<open>f"{mult:.2f}"\<close> on the two multipliers of the table that differ from 1.0\<close>
  "show_mult m = (if m = float_1_3 then ''1.30'' else ''1.25'')"

fun join :: "string \<Rightarrow> string list \<Rightarrow> string" where
  "join sep [] = []"
| "join sep [x] = x"
| "join sep (x # y # ys) = x @ sep @ join sep (y # ys)"

definition sort_values_desc :: "('a \<Rightarrow> rat) \<Rightarrow> 'a list \<Rightarrow> 'a list" where
  \<comment> \<open>a stable sort by descending key: \<^verbatim>\<open>sorted(xs, key=..., reverse=True)\<close>, and
      \<^verbatim>\<open>sort_values(..., ascending=False)\<close>, whose order among equal keys no theorem
      below relies on\<close>
  "sort_values_desc key xs = sort_key (\<lambda>x. - key x) xs"

subsection \<open>The review table\<close>

record review_row =
  rr_reviewer :: string
  rr_pr_url :: string
  rr_pr_title :: string
  rr_submittedAt :: int
  rr_early :: bool

fun pr_review_rows :: "activity \<Rightarrow> review list \<Rightarrow> review_row list" where
  \<comment> \<open>the inner loop over \<^verbatim>\<open>pr["reviews"]\<close>; 24 hours are \<open>24 * 3600\<close> seconds\<close>
  "pr_review_rows pr [] = []"
| "pr_review_rows pr (rv # rvs) =
     (case submittedAt rv of
        None \<Rightarrow> pr_review_rows pr rvs
      | Some submitted_dt \<Rightarrow>
          \<lparr>rr_reviewer = reviewer rv, rr_pr_url = url pr, rr_pr_title = title pr,
           rr_submittedAt = submitted_dt,
           rr_early = (submitted_dt - createdAt pr \<le> 24 * 3600 * 1000000)\<rparr>
          # pr_review_rows pr rvs)"

definition review_rows :: "activity list \<Rightarrow> review_row list" where
  "review_rows df = concat (map (\<lambda>pr. pr_review_rows pr (reviews pr)) df)"

subsection \<open>Scoring authored records\<close>

record breakdown =
  bd_delivery :: rat
  bd_reviews :: rat
  bd_leadership :: rat

record top_pr =
  tp_pts :: rat
  tp_title :: string
  tp_url :: string
  tp_why :: string

record author_state =
  author_scores :: "rat dict"
  author_breakdown :: "breakdown dict"
  author_top_prs :: "top_pr list dict"

definition zero_breakdown :: breakdown where
  \<comment> \<open>\<^verbatim>\<open>{"delivery": 0, "reviews": 0, "leadership": 0}\<close>\<close>
  "zero_breakdown = \<lparr>bd_delivery = 0, bd_reviews = 0, bd_leadership = 0\<rparr>"

definition no_authors :: author_state where
  "no_authors = \<lparr>author_scores = [], author_breakdown = [], author_top_prs = []\<rparr>"

definition size_pts_of :: "bucket \<Rightarrow> int" where
  "size_pts_of sz = (case sz of S \<Rightarrow> 0 | M \<Rightarrow> W_SIZE_M | L \<Rightarrow> W_SIZE_L)"

definition pr_size :: "activity \<Rightarrow> bucket" where
  "pr_size pr = pr_size_bucket (changedFiles pr) (additions pr) (deletions pr)"

definition accumulated :: "activity \<Rightarrow> int" where
  \<comment> \<open>\<^verbatim>\<open>pts\<close> just before \<^verbatim>\<open>pts = pts * mult\<close>\<close>
  "accumulated pr =
     W_BASE_PR + size_pts_of (pr_size pr)
     + (if has_tests_or_docs (files pr) then W_TESTS_DOCS else 0)
     + (if is_bugfix (title pr) then W_BUGFIX else 0)
     + (if is_infra_or_tooling (files pr) then W_INFRA_TOOLING else 0)"

definition pr_pts :: "activity \<Rightarrow> rat" where
  \<comment> \<open>\<^verbatim>\<open>pts\<close> after \<^verbatim>\<open>pts = pts * mult\<close>: an int times a float\<close>
  "pr_pts pr = fmul (float_of_int (accumulated pr)) (core_multiplier (files pr))"

definition pr_reasons :: "activity \<Rightarrow> string list" where
  "pr_reasons pr =
     [''Merged PR (+'' @ show_int W_BASE_PR @ '')'']
     @ (if size_pts_of (pr_size pr) \<noteq> 0
        then [''Size '' @ show_bucket (pr_size pr) @ '' (+'' @ show_int (size_pts_of (pr_size pr)) @ '')'']
        else [])
     @ (if has_tests_or_docs (files pr) then [''Tests/Docs (+'' @ show_int W_TESTS_DOCS @ '')''] else [])
     @ (if is_bugfix (title pr) then [''Bugfix/Regression (+'' @ show_int W_BUGFIX @ '')''] else [])
     @ (if is_infra_or_tooling (files pr)
        then [''Infra/Tooling (+'' @ show_int W_INFRA_TOOLING @ '')''] else [])
     @ (if core_multiplier (files pr) \<noteq> 1
        then [''Core area multiplier (x'' @ show_mult (core_multiplier (files pr)) @ '')''] else [])"

definition score_pr :: "author_state \<Rightarrow> activity \<Rightarrow> author_state" where
  \<comment> \<open>one iteration of the loop over the table\<close>
  "score_pr st pr =
     (let a = author pr;
          pts = pr_pts pr;
          bd = dict_get (author_breakdown st) a zero_breakdown;
          bd' = (if is_infra_or_tooling (files pr)
                 then bd\<lparr>bd_leadership := fadd (bd_leadership bd) pts\<rparr>
                 else bd\<lparr>bd_delivery := fadd (bd_delivery bd) pts\<rparr>);
          evidence = \<lparr>tp_pts = pts, tp_title = title pr, tp_url = url pr,
                      tp_why = join '', '' (take 3 (pr_reasons pr))\<rparr>
      in \<lparr>author_scores =
            AList.update a (fadd (dict_get (author_scores st) a 0) pts) (author_scores st),
          author_breakdown = AList.update a bd' (author_breakdown st),
          author_top_prs =
            AList.update a (dict_get (author_top_prs st) a [] @ [evidence]) (author_top_prs st)\<rparr>)"

definition score_authored :: "activity list \<Rightarrow> author_state" where
  "score_authored df = foldl score_pr no_authors df"

subsection \<open>Scoring reviews\<close>

record top_review =
  tr_pts :: int
  tr_pr_title :: string
  tr_pr_url :: string
  tr_early :: bool

record reviewer_state =
  reviewer_scores :: "int dict"
  reviewer_top_reviews :: "top_review list dict"

definition no_reviewers :: reviewer_state where
  "no_reviewers = \<lparr>reviewer_scores = [], reviewer_top_reviews = []\<rparr>"

definition review_pts :: "review_row \<Rightarrow> int" where
  "review_pts rv = W_REVIEW + (if rr_early rv then W_REVIEW_EARLY else 0)"

definition score_review :: "reviewer_state \<Rightarrow> review_row \<Rightarrow> reviewer_state" where
  "score_review st rv =
     (let r = rr_reviewer rv;
          pts = review_pts rv;
          evidence = \<lparr>tr_pts = pts, tr_pr_title = rr_pr_title rv, tr_pr_url = rr_pr_url rv,
                      tr_early = rr_early rv\<rparr>
      in \<lparr>reviewer_scores = AList.update r (dict_get (reviewer_scores st) r 0 + pts) (reviewer_scores st),
          reviewer_top_reviews =
            AList.update r (dict_get (reviewer_top_reviews st) r [] @ [evidence])
              (reviewer_top_reviews st)\<rparr>)"

definition score_reviews :: "review_row list \<Rightarrow> reviewer_state" where
  \<comment> \<open>\<^verbatim>\<open>if not reviews_df.empty: for ...\<close>\<close>
  "score_reviews reviews_df =
     (if reviews_df = [] then no_reviewers else foldl score_review no_reviewers reviews_df)"

subsection \<open>The final table and its evidence\<close>

record score_row =
  engineer :: string
  impact_score :: rat
  delivery :: rat
  reviews_pts :: rat
  leadership :: rat

record contributor = score_row +
  why :: string

datatype score_error = KeyError

definition engineer_row :: "author_state \<Rightarrow> reviewer_state \<Rightarrow> string \<Rightarrow> score_row" where
  \<comment> \<open>the body of \<^verbatim>\<open>for eng in engineers\<close>; the bucket totals are floats already, the
      review total is an int\<close>
  "engineer_row a r eng =
     (let d = (case map_of (author_breakdown a) eng of None \<Rightarrow> 0 | Some bd \<Rightarrow> bd_delivery bd);
          l = (case map_of (author_breakdown a) eng of None \<Rightarrow> 0 | Some bd \<Rightarrow> bd_leadership bd);
          rp = dict_get (reviewer_scores r) eng 0;
          total = fadd (fadd d l) (float_of_int rp)
      in \<lparr>engineer = eng, impact_score = total, delivery = d, reviews_pts = float_of_int rp,
          leadership = l\<rparr>)"

definition bullets :: "author_state \<Rightarrow> reviewer_state \<Rightarrow> score_row \<Rightarrow> string list" where
  "bullets a r row =
     (let eng = engineer row;
          authored = dict_get (author_top_prs a) eng [];
          top_prs = take 3 (sort_values_desc tp_pts authored);
          reviewed = dict_get (reviewer_top_reviews r) eng [];
          early_count = length (filter tr_early reviewed);
          bs = (if top_prs \<noteq> []
                then [''Shipped '' @ show_nat (length authored) @ '' merged PRs (top examples linked).'']
                else [])
             @ (if 0 < dict_get (reviewer_scores r) eng 0
                then [''Unblocked via '' @ show_nat (length reviewed) @ '' reviews (''
                      @ show_nat early_count @ '' early).'']
                else [])
             @ (if 0 < leadership row
                then [''Contributed leverage work (infra/tooling changes).''] else [])
      in if bs = [] then [''Contributed via merges and collaboration signals.''] else bs)"

definition why_of :: "author_state \<Rightarrow> reviewer_state \<Rightarrow> score_row \<Rightarrow> string" where
  "why_of a r row = join [newline] (map (\<lambda>b. ''- '' @ b) (take 3 (bullets a r row)))"

definition with_why :: "author_state \<Rightarrow> reviewer_state \<Rightarrow> score_row \<Rightarrow> contributor" where
  "with_why a r row =
     \<lparr>engineer = engineer row, impact_score = impact_score row, delivery = delivery row,
      reviews_pts = reviews_pts row, leadership = leadership row, why = why_of a r row\<rparr>"

definition set_iteration :: "(string list \<Rightarrow> string list) \<Rightarrow> bool" where
  \<comment> \<open>what is known of the order in which Python iterates over a set of strings: it is
      some enumeration of the set, fixed by the hash seed of the process\<close>
  "set_iteration f = (\<forall>xs. mset (f xs) = mset xs)"

definition engineers_of :: "author_state \<Rightarrow> reviewer_state \<Rightarrow> string list" where
  \<comment> \<open>\<^verbatim>\<open>set(author_scores.keys()) | set(reviewer_scores.keys())\<close>, listed once each\<close>
  "engineers_of a r = remdups (map fst (author_scores a) @ map fst (reviewer_scores r))"

definition main_score ::
  "(string list \<Rightarrow> string list) \<Rightarrow> activity list \<Rightarrow> score_error + contributor list" where
  \<comment> \<open>\<^verbatim>\<open>main\<close> of \<^verbatim>\<open>score.py\<close>, from the table read to the table written; with no row at
      all the frame has no column to sort by and \<^verbatim>\<open>sort_values\<close> raises\<close>
  "main_score set_order df =
     (let reviews_df = review_rows df;
          a = score_authored df;
          r = score_reviews reviews_df;
          engineers = set_order (engineers_of a r);
          rows = map (engineer_row a r) engineers
      in if rows = [] then Inl KeyError
         else Inr (map (with_why a r) (sort_values_desc impact_score rows)))"

section \<open>The ingestion model (\<^verbatim>\<open>fetch_data.py\<close>)\<close>

text \<open>
  A raw node is what the query returns for one pull request. A nullable object or list is
  an \<open>option\<close>; a timestamp is the instant it denotes, \<open>None\<close> where the field is null.
  The transport client is a parameter: \<open>post_gql cursor\<close> is the page that the request
  with that cursor returns, or \<open>None\<close> where \<^verbatim>\<open>post_gql\<close> raises its
  \<^verbatim>\<open>RuntimeError\<close>, its retries used up.
\<close>

datatype actor = Actor (login: "string option")

record raw_review =
  rv_author :: "actor option"
  rv_state :: "string option"
  rv_submittedAt :: "int option"

record raw_pr =
  n_number :: int
  n_title :: string
  n_url :: string
  n_createdAt :: int
  n_mergedAt :: "int option"
  n_updatedAt :: "int option"
  n_author :: "actor option"
  n_changedFiles :: int
  n_additions :: int
  n_deletions :: int
  n_labels :: "string list option"
  n_files :: "string list option"
  n_comments :: "int option"
  n_reviews :: "raw_review list option"

record page =
  nodes :: "raw_pr list option"
  hasNextPage :: bool
  endCursor :: "string option"

datatype fetch_error = RuntimeError | SystemExit

definition login_or_unknown :: "actor option \<Rightarrow> string" where
  \<comment> \<open>\<^verbatim>\<open>(x.get("author") or {}).get("login") or "unknown"\<close>\<close>
  "login_or_unknown a =
     (case a of
        None \<Rightarrow> ''unknown''
      | Some (Actor None) \<Rightarrow> ''unknown''
      | Some (Actor (Some l)) \<Rightarrow> if l = [] then ''unknown'' else l)"

definition flatten_review :: "raw_review \<Rightarrow> review" where
  "flatten_review rv =
     \<lparr>reviewer = login_or_unknown (rv_author rv), state = rv_state rv,
      submittedAt = rv_submittedAt rv\<rparr>"

definition or_empty :: "'a list option \<Rightarrow> 'a list" where
  "or_empty xs = (case xs of None \<Rightarrow> [] | Some ys \<Rightarrow> ys)"

definition make_row :: "raw_pr \<Rightarrow> int \<Rightarrow> activity" where
  \<comment> \<open>the dict appended to \<^verbatim>\<open>rows\<close> for a node merged at \<open>merged_dt\<close>\<close>
  "make_row pr merged_dt =
     \<lparr>number = n_number pr, title = n_title pr, url = n_url pr,
      author = login_or_unknown (n_author pr),
      createdAt = n_createdAt pr, mergedAt = merged_dt, updatedAt = n_updatedAt pr,
      changedFiles = n_changedFiles pr, additions = n_additions pr, deletions = n_deletions pr,
      commentCount = (case n_comments pr of None \<Rightarrow> 0 | Some c \<Rightarrow> c),
      labels = or_empty (n_labels pr), files = or_empty (n_files pr),
      reviews = map flatten_review (or_empty (n_reviews pr))\<rparr>"

fun keep_page :: "int \<Rightarrow> raw_pr list \<Rightarrow> activity list" where
  \<comment> \<open>the rows that \<^verbatim>\<open>for pr in nodes\<close> appends\<close>
  "keep_page since [] = []"
| "keep_page since (pr # prs) =
     (case n_mergedAt pr of
        None \<Rightarrow> keep_page since prs
      | Some merged_dt \<Rightarrow>
          if merged_dt < since then keep_page since prs
          else make_row pr merged_dt # keep_page since prs)"

record fetch_state =
  rows :: "activity list"
  cursor :: "string option"
  pages :: nat
  saved :: "activity list option"

text \<open>
  \<open>saved\<close> is the content of \<^verbatim>\<open>data/prs_90d.parquet\<close>. The loop returns the exception
  that left it, if any, and the state it was left in; it need not return at all.
\<close>

partial_function (option) fetch_loop ::
  "int \<Rightarrow> (string option \<Rightarrow> page option) \<Rightarrow> fetch_state
   \<Rightarrow> (fetch_error option \<times> fetch_state) option" where
  "fetch_loop since post_gql st =
     (case post_gql (cursor st) of
        None \<Rightarrow> Some (Some RuntimeError, st)
      | Some pr_block \<Rightarrow>
          (let kept = keep_page since (or_empty (nodes pr_block));
               rows' = rows st @ kept;
               pages' = pages st + 1;
               saved' = (if pages' mod 10 = 0 then Some rows' else saved st)
           in if length kept = 0
              then Some (None, \<lparr>rows = rows', cursor = cursor st, pages = pages', saved = saved'\<rparr>)
              else fetch_loop since post_gql
                     \<lparr>rows = rows', cursor = endCursor pr_block, pages = pages', saved = saved'\<rparr>))"

declare fetch_loop.simps [code]

definition start :: "activity list option \<Rightarrow> fetch_state" where
  \<comment> \<open>the state before the first request, with what the output file holds from earlier\<close>
  "start file = \<lparr>rows = [], cursor = None, pages = 0, saved = file\<rparr>"

definition main_fetch ::
  "int \<Rightarrow> (string option \<Rightarrow> page option) \<Rightarrow> activity list option
   \<Rightarrow> ((fetch_error + activity list) \<times> activity list option) option" where
  \<comment> \<open>\<^verbatim>\<open>main\<close> of \<^verbatim>\<open>fetch_data.py\<close>: the exception or the frozen table, and the content
      of the output file at the end\<close>
  "main_fetch since post_gql file =
     (case fetch_loop since post_gql (start file) of
        None \<Rightarrow> None
      | Some (Some e, st) \<Rightarrow> Some (Inl e, saved st)
      | Some (None, st) \<Rightarrow>
          if rows st = [] then Some (Inl SystemExit, saved st)
          else (let df = filter (\<lambda>r. since \<le> mergedAt r) (rows st)
                in Some (Inr df, Some df)))"

section \<open>Concrete tables and upstreams\<close>

definition blank_pr :: activity where
  "blank_pr =
     \<lparr>number = 1, title = [], url = ''https://example.org/pr/1'', author = ''alice'',
      createdAt = 0, mergedAt = 0, updatedAt = None, changedFiles = 1, additions = 0,
      deletions = 0, commentCount = 0, labels = [], files = [], reviews = []\<rparr>"

definition infra_pr :: activity where
  \<comment> \<open>a record that touches a workflow file\<close>
  "infra_pr = blank_pr\<lparr>author := ''dana'', title := ''bump runner'',
                      files := [''.github/workflows/ci.yml'']\<rparr>"

definition alice_pr :: activity where
  \<comment> \<open>the end-to-end scenario of the specification\<close>
  "alice_pr = blank_pr\<lparr>title := ''fix crash on login'', files := [''src/app.py''],
                      additions := 50, deletions := 10\<rparr>"

definition twenty_pr :: activity where
  \<comment> \<open>base 10, size L 8, tests 2, in a core area\<close>
  "twenty_pr = blank_pr\<lparr>title := ''new funnel step'', files := [''posthog/tests/test_funnel.py''],
                       changedFiles := 30, additions := 900, deletions := 100\<rparr>"

definition day :: int where
  \<comment> \<open>24 hours in microseconds\<close>
  "day = 86400000000"

definition boundary_pr :: activity where
  \<comment> \<open>created at 0; reviewed one second before, exactly at, and one second after 24 hours\<close>
  "boundary_pr = blank_pr\<lparr>reviews :=
     [\<lparr>reviewer = ''bob'', state = Some ''APPROVED'', submittedAt = Some (day - 1000000)\<rparr>,
      \<lparr>reviewer = ''carol'', state = Some ''APPROVED'', submittedAt = Some day\<rparr>,
      \<lparr>reviewer = ''erin'', state = Some ''COMMENTED'', submittedAt = Some (day + 1000000)\<rparr>]\<rparr>"

definition blank_node :: raw_pr where
  "blank_node =
     \<lparr>n_number = 7, n_title = ''tidy up'', n_url = ''https://example.org/pr/7'', n_createdAt = 0,
      n_mergedAt = Some 100, n_updatedAt = Some 100, n_author = Some (Actor (Some ''alice'')),
      n_changedFiles = 1, n_additions = 1, n_deletions = 1, n_labels = Some [],
      n_files = Some [''src/app.py''], n_comments = Some 0, n_reviews = Some []\<rparr>"

definition anon_node :: raw_pr where
  \<comment> \<open>no author; one review with no author and no submission timestamp, one with an author
      object without login, submitted at 50\<close>
  "anon_node = blank_node\<lparr>n_author := None, n_reviews := Some
     [\<lparr>rv_author = None, rv_state = Some ''COMMENTED'', rv_submittedAt = None\<rparr>,
      \<lparr>rv_author = Some (Actor None), rv_state = Some ''APPROVED'', rv_submittedAt = Some 50\<rparr>]\<rparr>"

definition old_node :: raw_pr where
  \<comment> \<open>merged at 10, before a window that starts at 50\<close>
  "old_node = blank_node\<lparr>n_number := 8, n_mergedAt := Some 10\<rparr>"

definition anon_row :: activity where
  "anon_row = make_row anon_node 100"

definition last_page_upstream :: "string option \<Rightarrow> page option" where
  \<comment> \<open>one page, an old record before a recent one, flagged as the last; the request after
      its end cursor is answered by an empty page\<close>
  "last_page_upstream c =
     (if c = None
      then Some \<lparr>nodes = Some [old_node, anon_node], hasNextPage = False, endCursor = Some ''Y3Vyc29yOjI=''\<rparr>
      else Some \<lparr>nodes = Some [], hasNextPage = False, endCursor = None\<rparr>)"

definition old_only_upstream :: "string option \<Rightarrow> page option" where
  \<comment> \<open>every page holds one old record and announces a next page\<close>
  "old_only_upstream c =
     Some \<lparr>nodes = Some [old_node], hasNextPage = True, endCursor = Some ''Y3Vyc29yOjE=''\<rparr>"

definition tie_pr :: activity where
  \<comment> \<open>the end-to-end record, with two late reviews: both reviewers score 2\<close>
  "tie_pr = alice_pr\<lparr>reviews :=
     [\<lparr>reviewer = ''bob'', state = Some ''APPROVED'', submittedAt = Some (day + 1)\<rparr>,
      \<lparr>reviewer = ''carol'', state = Some ''APPROVED'', submittedAt = Some (day + 2)\<rparr>]\<rparr>"

definition ranked_pr :: activity where
  \<comment> \<open>the end-to-end record, with an early and a late review\<close>
  "ranked_pr = alice_pr\<lparr>reviews :=
     [\<lparr>reviewer = ''bob'', state = Some ''APPROVED'', submittedAt = Some 3600000000\<rparr>,
      \<lparr>reviewer = ''carol'', state = Some ''APPROVED'', submittedAt = Some (day + 2)\<rparr>]\<rparr>"

definition ranked_scores :: "contributor list" where
  "ranked_scores =
     [\<lparr>engineer = ''alice'', impact_score = 4756927106410087 / 281474976710656,
       delivery = 4756927106410087 / 281474976710656, reviews_pts = 0, leadership = 0,
       why = ''- Shipped 1 merged PRs (top examples linked).''\<rparr>,
      \<lparr>engineer = ''bob'', impact_score = 3, delivery = 0, reviews_pts = 3, leadership = 0,
       why = ''- Unblocked via 1 reviews (1 early).''\<rparr>,
      \<lparr>engineer = ''carol'', impact_score = 2, delivery = 0, reviews_pts = 2, leadership = 0,
       why = ''- Unblocked via 1 reviews (0 early).''\<rparr>]"

definition tie_scores :: "contributor list" where
  "tie_scores =
     [\<lparr>engineer = ''alice'', impact_score = 4756927106410087 / 281474976710656,
       delivery = 4756927106410087 / 281474976710656, reviews_pts = 0, leadership = 0,
       why = ''- Shipped 1 merged PRs (top examples linked).''\<rparr>,
      \<lparr>engineer = ''bob'', impact_score = 2, delivery = 0, reviews_pts = 2, leadership = 0,
       why = ''- Unblocked via 1 reviews (0 early).''\<rparr>,
      \<lparr>engineer = ''carol'', impact_score = 2, delivery = 0, reviews_pts = 2, leadership = 0,
       why = ''- Unblocked via 1 reviews (0 early).''\<rparr>]"


section \<open>Properties\<close>

subsection \<open>Floats\<close>

lemma pow2_pos: "0 < pow2 e"
  by (simp add: pow2_def)

lemma pow2_powi: "pow2 e = 2 powi e"
  by (simp add: pow2_def power_int_def inverse_eq_divide power_one_over)

lemma pow2_significand: "pow2 (e - 52) \<le> pow2 e"
  unfolding pow2_powi by (simp add: power_int_increasing)

lemma round_half_even_ge_floor: "\<lfloor>x\<rfloor> \<le> round_half_even x"
  by (simp add: round_half_even_def Let_def)

lemma ilog2_lower:
  assumes "1 \<le> x"
  shows "pow2 (ilog2 x) \<le> x"
proof -
  have p: "0 < \<lfloor>x\<rfloor>" using assms by linarith
  have b: "1 \<le> bitlen \<lfloor>x\<rfloor>" using p by (simp add: bitlen_alt_def)
  have "(2::int) ^ nat (bitlen \<lfloor>x\<rfloor> - 1) \<le> \<lfloor>x\<rfloor>" using bitlen_bounds[OF p] by simp
  then have "rat_of_int (2 ^ nat (bitlen \<lfloor>x\<rfloor> - 1)) \<le> of_int \<lfloor>x\<rfloor>" by (simp only: of_int_le_iff)
  also have "\<dots> \<le> x" by simp
  finally show ?thesis using assms b by (simp add: ilog2_def pow2_def)
qed

lemma double_round_pos:
  assumes "1 \<le> x"
  shows "0 < double_round x"
proof -
  let ?q = "pow2 (ilog2 x - 52)"
  have q: "0 < ?q" by (rule pow2_pos)
  have "?q \<le> x" using pow2_significand[of "ilog2 x"] ilog2_lower[OF assms] by linarith
  then have "1 \<le> x / ?q" using q by (simp add: le_divide_eq)
  then have "1 \<le> \<lfloor>x / ?q\<rfloor>" by linarith
  then have "1 \<le> round_half_even (x / ?q)" using round_half_even_ge_floor[of "x / ?q"] by linarith
  then have "0 < rat_of_int (round_half_even (x / ?q))" by simp
  then have "0 < round_pos x" using q by (simp add: round_pos_def Let_def)
  then show ?thesis using assms by (simp add: double_round_def)
qed

subsection \<open>The dictionaries of the scoring loops\<close>

lemma author_breakdown_keys:
  "fst ` set (author_breakdown (foldl score_pr st df))
   = fst ` set (author_breakdown st) \<union> author ` set df"
  by (induction df arbitrary: st) (auto simp: score_pr_def Let_def dom_update)

lemma author_scores_keys:
  "fst ` set (author_scores (foldl score_pr st df))
   = fst ` set (author_scores st) \<union> author ` set df"
  by (induction df arbitrary: st) (auto simp: score_pr_def Let_def dom_update)

lemma score_authored_keys:
  "fst ` set (author_scores (score_authored df)) = author ` set df"
  "fst ` set (author_breakdown (score_authored df)) = author ` set df"
  by (simp_all add: score_authored_def no_authors_def author_scores_keys author_breakdown_keys)

lemma reviewer_scores_keys:
  "fst ` set (reviewer_scores (foldl score_review st rs))
   = fst ` set (reviewer_scores st) \<union> rr_reviewer ` set rs"
  by (induction rs arbitrary: st) (auto simp: score_review_def Let_def dom_update)

lemma reviewer_scores_sum:
  "dict_get (reviewer_scores (foldl score_review st rs)) k 0
   = dict_get (reviewer_scores st) k 0
     + sum_list (map review_pts (filter (\<lambda>r. rr_reviewer r = k) rs))"
  by (induction rs arbitrary: st) (auto simp: score_review_def Let_def dict_get_def update_conv')

lemma review_pts_ge: "2 \<le> review_pts r"
  by (simp add: review_pts_def W_REVIEW_def W_REVIEW_EARLY_def)

lemma sum_review_pts_ge:
  "r \<in> set rs \<Longrightarrow> rr_reviewer r = k
   \<Longrightarrow> 2 \<le> sum_list (map review_pts (filter (\<lambda>r. rr_reviewer r = k) rs))"
proof (induction rs)
  case Nil
  then show ?case by simp
next
  case (Cons a rs)
  have nn: "0 \<le> sum_list (map review_pts (filter (\<lambda>r. rr_reviewer r = k) rs))"
    by (rule sum_list_nonneg) (use review_pts_ge in \<open>auto intro: order_trans[of 0 2]\<close>)
  show ?case using Cons nn review_pts_ge[of a] by (cases "r = a") auto
qed

lemma score_reviews_keys: "fst ` set (reviewer_scores (score_reviews rs)) = rr_reviewer ` set rs"
  by (simp add: score_reviews_def no_reviewers_def reviewer_scores_keys)

lemma score_reviews_sum:
  "dict_get (reviewer_scores (score_reviews rs)) k 0
   = sum_list (map review_pts (filter (\<lambda>r. rr_reviewer r = k) rs))"
  using reviewer_scores_sum[of no_reviewers rs k]
  by (simp add: score_reviews_def dict_get_def no_reviewers_def)

subsection \<open>Attribution\<close>

text \<open>
  C5. Scoring one record moves its whole post-multiplier total into exactly one bucket of
  its author: into leadership, leaving delivery as it was, if some touched path matches
  the infra/tooling pattern, and into delivery, leaving leadership as it was, otherwise.
  The buckets of every other contributor stay as they were.
\<close>

theorem attribution_either_or:
  "(let before = dict_get (author_breakdown st) (author pr) zero_breakdown;
        after = dict_get (author_breakdown (score_pr st pr)) (author pr) zero_breakdown
    in if is_infra_or_tooling (files pr)
       then bd_leadership after = fadd (bd_leadership before) (pr_pts pr)
            \<and> bd_delivery after = bd_delivery before
       else bd_delivery after = fadd (bd_delivery before) (pr_pts pr)
            \<and> bd_leadership after = bd_leadership before)
   \<and> (\<forall>a. a \<noteq> author pr
          \<longrightarrow> map_of (author_breakdown (score_pr st pr)) a = map_of (author_breakdown st) a)"
  by (simp add: score_pr_def Let_def dict_get_def update_conv')

theorem attribution_either_or_witness:
  "is_infra_or_tooling (files infra_pr)
   \<and> bd_leadership (dict_get (author_breakdown (score_pr no_authors infra_pr)) ''dana'' zero_breakdown)
     = 65 / 4
   \<and> bd_delivery (dict_get (author_breakdown (score_pr no_authors infra_pr)) ''dana'' zero_breakdown)
     = 0"
proof -
  have infra: "is_infra_or_tooling (files infra_pr)" by code_simp
  have who: "author infra_pr = ''dana''" by code_simp
  have before: "dict_get (author_breakdown no_authors) ''dana'' zero_breakdown = zero_breakdown"
    by code_simp
  have zero: "bd_leadership zero_breakdown = 0" "bd_delivery zero_breakdown = 0"
    by (simp_all add: zero_breakdown_def)
  have pts: "fadd 0 (pr_pts infra_pr) = 65 / 4" by code_simp
  show ?thesis
    using attribution_either_or [of no_authors infra_pr] infra
    by (simp add: Let_def who before zero pts)
qed

subsection \<open>The core-area multiplier\<close>

lemma twenty_times_1_3: "fmul (float_of_int 20) float_1_3 = 26"
  by code_simp

text \<open>
  C4, as the specification states it, fails on the end-to-end scenario: the record
  accumulates 13 points and matches the 1.3 multiplier, and the float product of 13 and
  1.3 is the double above 16.9 (printed \<^verbatim>\<open>16.900000000000002\<close>), which is neither the
  real number 16.9 nor the double that the literal \<^verbatim>\<open>16.9\<close> denotes.
\<close>

theorem end_to_end_not_16_9:
  "accumulated alice_pr = 13 \<and> core_multiplier (files alice_pr) = float_1_3
   \<and> pr_pts alice_pr \<noteq> 169 / 10 \<and> pr_pts alice_pr \<noteq> double_round (169 / 10)"
  by code_simp

text \<open>
  C4, amended. The multiplier is applied to the whole accumulated total (base, size bonus,
  tests/docs bonus, bugfix bonus, infra bonus), by one float multiplication; the first
  pattern of the ordered list that matches some path gives the multiplier, and no match
  leaves it at 1.0. A record that accumulates 20 points and matches the 1.3 multiplier
  scores exactly 26.0. The end-to-end scenario scores the double
  \<open>4756927106410087 / 2 ^ 48\<close>, printed \<^verbatim>\<open>16.900000000000002\<close>.
\<close>

theorem multiplier_on_whole_total:
  "pr_pts pr
   = fmul (float_of_int
             (W_BASE_PR + size_pts_of (pr_size pr)
              + (if has_tests_or_docs (files pr) then W_TESTS_DOCS else 0)
              + (if is_bugfix (title pr) then W_BUGFIX else 0)
              + (if is_infra_or_tooling (files pr) then W_INFRA_TOOLING else 0)))
          (core_multiplier (files pr))
   \<and> core_multiplier fs
     = (if list_ex core_pattern_1 fs then float_1_3
        else if list_ex core_pattern_2 fs then 5 / 4 else 1)
   \<and> (accumulated pr = 20 \<and> core_multiplier (files pr) = float_1_3 \<longrightarrow> pr_pts pr = 26)
   \<and> pr_pts alice_pr = 4756927106410087 / 2 ^ 48"
proof -
  have "pr_pts alice_pr = 4756927106410087 / 2 ^ 48" by code_simp
  then show ?thesis
    by (simp add: pr_pts_def accumulated_def core_multiplier_def CORE_MULTIPLIERS_def
        DEFAULT_MULT_def twenty_times_1_3)
qed

theorem multiplier_on_whole_total_witness:
  "accumulated twenty_pr = 20 \<and> core_multiplier (files twenty_pr) = float_1_3
   \<and> pr_pts twenty_pr = 26
   \<and> fmul (float_of_int W_BASE_PR) float_1_3 + 10 = 23"
proof -
  have acc: "accumulated twenty_pr = 20" by code_simp
  have m: "core_multiplier (files twenty_pr) = float_1_3" by code_simp
  have base: "fmul (float_of_int W_BASE_PR) float_1_3 + 10 = 23" by code_simp
  show ?thesis
    using multiplier_on_whole_total [of twenty_pr "files twenty_pr"] acc m base by simp
qed

subsection \<open>Early reviews\<close>

text \<open>
  C2, as the specification states it, fails at the boundary: a review submitted exactly
  24 hours after the record was created is early, and earns the bonus.
\<close>

theorem review_at_24h_is_early:
  "map (\<lambda>r. (rr_reviewer r, rr_submittedAt r - createdAt boundary_pr, rr_early r))
     (review_rows [boundary_pr])
   = [(''bob'', day - 1000000, True), (''carol'', day, True), (''erin'', day + 1000000, False)]
   \<and> reviewer_scores (score_reviews (review_rows [boundary_pr]))
     = [(''bob'', 3), (''carol'', 3), (''erin'', 2)]"
  by code_simp

text \<open>
  C2, amended. A review with a submission timestamp is early, and earns the early-review
  bonus on top of the fixed review points, if and only if it was submitted at most 24
  hours after the record was created; the boundary is inclusive.
\<close>

theorem early_review_inclusive:
  "map rr_early (pr_review_rows pr rvs)
   = map (\<lambda>t. t - createdAt pr \<le> day) (List.map_filter submittedAt rvs)
   \<and> review_pts row = (if rr_early row then W_REVIEW + W_REVIEW_EARLY else W_REVIEW)"
proof -
  have "map rr_early (pr_review_rows pr rvs)
        = map (\<lambda>t. t - createdAt pr \<le> day) (List.map_filter submittedAt rvs)"
    by (induction rvs) (auto simp: map_filter_simps day_def split: option.splits)
  then show ?thesis by (simp add: review_pts_def)
qed

theorem early_review_inclusive_witness:
  "map rr_early (pr_review_rows boundary_pr (reviews boundary_pr)) = [True, True, False]"
proof -
  have "map (\<lambda>t. t - createdAt boundary_pr \<le> day) (List.map_filter submittedAt (reviews boundary_pr))
        = [True, True, False]"
    by code_simp
  then show ?thesis
    using early_review_inclusive [of boundary_pr "reviews boundary_pr"] by simp
qed

subsection \<open>The ingestion loop\<close>

lemma keep_page_in_window: "r \<in> set (keep_page since prs) \<Longrightarrow> since \<le> mergedAt r"
  by (induction prs) (auto simp: make_row_def split: option.splits if_splits)

lemma keep_page_numbers:
  "map number (keep_page since prs)
   = map n_number (filter (\<lambda>p. case n_mergedAt p of None \<Rightarrow> False | Some m \<Rightarrow> since \<le> m) prs)"
  by (induction prs) (auto simp: make_row_def split: option.splits)

lemma fetch_loop_appends:
  assumes "fetch_loop since post_gql st = Some res"
  shows "\<exists>ys. rows (snd res) = rows st @ ys \<and> (\<forall>r\<in>set ys. since \<le> mergedAt r)"
proof (rule fetch_loop.raw_induct
    [where P = "\<lambda>since post_gql st res.
                  \<exists>ys. rows (snd res) = rows st @ ys \<and> (\<forall>r\<in>set ys. since \<le> mergedAt r)",
     OF _ assms], goal_cases)
  case (1 loop since post_gql st res)
  show ?case
  proof (cases "post_gql (cursor st)")
    case None
    with 1(2) show ?thesis by auto
  next
    case (Some pr_block)
    let ?kept = "keep_page since (or_empty (nodes pr_block))"
    show ?thesis
    proof (cases "?kept = []")
      case True
      with 1(2) Some show ?thesis by (auto simp: Let_def)
    next
      case False
      with 1(2) Some obtain st' where
        st': "loop since post_gql st' = Some res" "rows st' = rows st @ ?kept"
        by (auto simp: Let_def)
      from 1(1)[OF st'(1)] obtain ys where
        "rows (snd res) = rows st' @ ys" "\<forall>r\<in>set ys. since \<le> mergedAt r" by blast
      with st'(2) keep_page_in_window[of _ since "or_empty (nodes pr_block)"]
      show ?thesis by (intro exI[of _ "?kept @ ys"]) auto
    qed
  qed
qed

lemma collected_rows_in_window:
  assumes "fetch_loop since post_gql (start file) = Some (e, st)"
  shows "\<forall>r\<in>set (rows st). since \<le> mergedAt r"
  using fetch_loop_appends[OF assms] by (auto simp: start_def)

lemma empty_run_saves_nothing:
  assumes "fetch_loop since post_gql (start file) = Some (None, st)"
    and "rows st = []"
  shows "saved st = file"
proof (cases "post_gql None")
  case None
  with assms(1) show ?thesis by (subst (asm) fetch_loop.simps) (auto simp: start_def)
next
  case (Some p)
  show ?thesis
  proof (cases "keep_page since (or_empty (nodes p)) = []")
    case True
    with assms(1) Some show ?thesis
      by (subst (asm) fetch_loop.simps) (auto simp: Let_def start_def)
  next
    case False
    with assms(1) Some obtain st' where
      "fetch_loop since post_gql st' = Some (None, st)"
      "rows st' = keep_page since (or_empty (nodes p))"
      by (subst (asm) fetch_loop.simps) (auto simp: Let_def start_def)
    with fetch_loop_appends[of since post_gql st' "(None, st)"] False assms(2)
    show ?thesis by auto
  qed
qed

text \<open>
  C1. Every record of the table that ingestion freezes was merged inside the window: a
  record enters the collected rows only after passing the window test on its page, and
  the final pass filters the collected rows by merge time once more before they are
  written, so the frozen table is the collected rows, all of them in the window.
\<close>

theorem final_table_in_window:
  assumes "main_fetch since post_gql file = Some (Inr df, f)"
  shows "(\<forall>r\<in>set df. since \<le> mergedAt r) \<and> f = Some df
         \<and> (\<exists>st. fetch_loop since post_gql (start file) = Some (None, st) \<and> df = rows st)"
proof -
  from assms obtain st where
    run: "fetch_loop since post_gql (start file) = Some (None, st)"
    and df: "df = filter (\<lambda>r. since \<le> mergedAt r) (rows st)" and f: "f = Some df"
    by (auto simp: main_fetch_def Let_def split: option.splits prod.splits if_splits)
  have inside: "\<forall>r\<in>set (rows st). since \<le> mergedAt r"
    by (rule collected_rows_in_window[OF run])
  then have "filter (\<lambda>r. since \<le> mergedAt r) (rows st) = rows st"
    by simp
  with run df f inside show ?thesis by auto
qed

theorem final_table_in_window_witness:
  "main_fetch 50 last_page_upstream None = Some (Inr [anon_row], Some [anon_row])
   \<and> 50 \<le> mergedAt anon_row"
proof -
  have run: "main_fetch 50 last_page_upstream None = Some (Inr [anon_row], Some [anon_row])"
    by code_simp
  from final_table_in_window [OF run] show ?thesis using run by simp
qed

lemma loop_never_exits: "fetch_loop since post_gql st = Some res \<Longrightarrow> fst res \<noteq> Some SystemExit"
  by (rule fetch_loop.raw_induct
        [where P = "\<lambda>since post_gql st res. fst res \<noteq> Some SystemExit"])
     (auto simp: Let_def split: option.splits if_splits)

text \<open>
  C8. When no record survives the window filter, ingestion ends in its fatal exit and the
  output file is left as it was: nothing is written, and no checkpoint was. That is what
  happens as soon as the first page has no record in the window. A run that ends without
  an exception has written a table that is not empty, the whole of what it collected;
  the only other way for a run to end is the transport client's exception.
\<close>

theorem empty_ingestion_is_fatal:
  "(\<forall>st. fetch_loop since post_gql (start file) = Some (None, st) \<and> rows st = []
         \<longrightarrow> main_fetch since post_gql file = Some (Inl SystemExit, file))
   \<and> (\<forall>p. post_gql None = Some p \<and> keep_page since (or_empty (nodes p)) = []
         \<longrightarrow> main_fetch since post_gql file = Some (Inl SystemExit, file))
   \<and> (\<forall>f. main_fetch since post_gql file = Some (Inl SystemExit, f) \<longrightarrow> f = file)
   \<and> (\<forall>df f. main_fetch since post_gql file = Some (Inr df, f) \<longrightarrow> df \<noteq> [] \<and> f = Some df)"
proof -
  have fatal: "main_fetch since post_gql file = Some (Inl SystemExit, file)"
    if "fetch_loop since post_gql (start file) = Some (None, st)" and "rows st = []" for st
    using that empty_run_saves_nothing[OF that] by (simp add: main_fetch_def)
  have first: "main_fetch since post_gql file = Some (Inl SystemExit, file)"
    if "post_gql None = Some p" and "keep_page since (or_empty (nodes p)) = []" for p
  proof -
    from that have "fetch_loop since post_gql (start file)
        = Some (None, \<lparr>rows = [], cursor = None, pages = 1, saved = file\<rparr>)"
      by (subst fetch_loop.simps) (simp add: start_def Let_def)
    from fatal[OF this] show ?thesis by simp
  qed
  have untouched: "f = file" if m: "main_fetch since post_gql file = Some (Inl SystemExit, f)" for f
  proof (cases "fetch_loop since post_gql (start file)")
    case None
    with m show ?thesis by (simp add: main_fetch_def)
  next
    case (Some res)
    obtain e st where res: "res = (e, st)" by (cases res)
    from loop_never_exits[OF Some] res have ne: "e \<noteq> Some SystemExit" by simp
    show ?thesis
    proof (cases e)
      case None
      with Some res have run: "fetch_loop since post_gql (start file) = Some (None, st)" by simp
      with m have "rows st = []" by (auto simp: main_fetch_def Let_def split: if_splits)
      from fatal[OF run this] m show ?thesis by simp
    next
      case (Some err)
      with ne m \<open>fetch_loop since post_gql (start file) = Some res\<close> res show ?thesis
        by (simp add: main_fetch_def)
    qed
  qed
  have written: "df \<noteq> [] \<and> f = Some df" if m: "main_fetch since post_gql file = Some (Inr df, f)" for df f
  proof -
    from m obtain st where run: "fetch_loop since post_gql (start file) = Some (None, st)"
      and ne: "rows st \<noteq> []" and df: "df = filter (\<lambda>r. since \<le> mergedAt r) (rows st)" and f: "f = Some df"
      by (auto simp: main_fetch_def Let_def split: option.splits prod.splits if_splits)
    from collected_rows_in_window[OF run]
    have "filter (\<lambda>r. since \<le> mergedAt r) (rows st) = rows st" by simp
    with ne df f show ?thesis by simp
  qed
  from fatal first untouched written show ?thesis by blast
qed

theorem empty_ingestion_is_fatal_witness:
  "main_fetch 50 old_only_upstream (Some [blank_pr]) = Some (Inl SystemExit, Some [blank_pr])
   \<and> map_option (\<lambda>p. keep_page 50 (or_empty (nodes p))) (old_only_upstream None) = Some []"
proof -
  have none: "map_option (\<lambda>p. keep_page 50 (or_empty (nodes p))) (old_only_upstream None) = Some []"
    by code_simp
  then obtain p where "old_only_upstream None = Some p" "keep_page 50 (or_empty (nodes p)) = []"
    by auto
  with empty_ingestion_is_fatal [of 50 old_only_upstream "Some [blank_pr]"] none
  show ?thesis by blast
qed

subsection \<open>The stopping rule\<close>

lemma flag_irrelevant_one_way:
  assumes "fetch_loop since g st = Some res"
  shows "(\<forall>c. rel_option (\<lambda>p q. nodes p = nodes q \<and> endCursor p = endCursor q) (g c) (g' c))
         \<longrightarrow> fetch_loop since g' st = Some res"
proof (rule fetch_loop.raw_induct
    [where P = "\<lambda>since g st res.
       (\<forall>c. rel_option (\<lambda>p q. nodes p = nodes q \<and> endCursor p = endCursor q) (g c) (g' c))
         \<longrightarrow> fetch_loop since g' st = Some res",
     OF _ assms], goal_cases)
  case (1 loop since g st res)
  show ?case
  proof
    assume all: "\<forall>c. rel_option (\<lambda>p q. nodes p = nodes q \<and> endCursor p = endCursor q) (g c) (g' c)"
    then have rel: "rel_option (\<lambda>p q. nodes p = nodes q \<and> endCursor p = endCursor q)
      (g (cursor st)) (g' (cursor st))" by blast
    show "fetch_loop since g' st = Some res"
    proof (cases "g (cursor st)")
      case None
      with rel have "g' (cursor st) = None" by (cases "g' (cursor st)") auto
      with 1(2) None show ?thesis by (subst fetch_loop.simps) auto
    next
      case (Some p)
      with rel obtain q where
        q: "g' (cursor st) = Some q" "nodes p = nodes q" "endCursor p = endCursor q"
        by (cases "g' (cursor st)") auto
      show ?thesis
      proof (cases "keep_page since (or_empty (nodes p)) = []")
        case True
        with 1(2) Some q show ?thesis by (subst fetch_loop.simps) (auto simp: Let_def)
      next
        case False
        with 1(2) Some
        have "loop since g
                \<lparr>rows = rows st @ keep_page since (or_empty (nodes p)),
                 cursor = endCursor p, pages = pages st + 1,
                 saved = (if (pages st + 1) mod 10 = 0
                          then Some (rows st @ keep_page since (or_empty (nodes p)))
                          else saved st)\<rparr> = Some res"
          by (auto simp: Let_def)
        from 1(1)[OF this] all False q show ?thesis
          by (subst fetch_loop.simps) (auto simp: Let_def)
      qed
    qed
  qed
qed

lemma flag_never_read:
  "fetch_loop since (\<lambda>c. map_option (\<lambda>p. p\<lparr>hasNextPage := flag c\<rparr>) (post_gql c)) st
   = fetch_loop since post_gql st"
proof -
  let ?g' = "\<lambda>c. map_option (\<lambda>p. p\<lparr>hasNextPage := flag c\<rparr>) (post_gql c)"
  have r1: "\<forall>c. rel_option (\<lambda>p q. nodes p = nodes q \<and> endCursor p = endCursor q)
                  (post_gql c) (?g' c)"
  proof
    fix c
    show "rel_option (\<lambda>p q. nodes p = nodes q \<and> endCursor p = endCursor q) (post_gql c) (?g' c)"
      by (cases "post_gql c") auto
  qed
  have r2: "\<forall>c. rel_option (\<lambda>p q. nodes p = nodes q \<and> endCursor p = endCursor q)
                  (?g' c) (post_gql c)"
  proof
    fix c
    show "rel_option (\<lambda>p q. nodes p = nodes q \<and> endCursor p = endCursor q) (?g' c) (post_gql c)"
      by (cases "post_gql c") auto
  qed
  show ?thesis
  proof (cases "fetch_loop since post_gql st")
    case None
    show ?thesis
    proof (cases "fetch_loop since ?g' st")
      case None
      with \<open>fetch_loop since post_gql st = None\<close> show ?thesis by simp
    next
      case (Some res)
      from flag_irrelevant_one_way[OF Some, of post_gql] r2 None show ?thesis by simp
    qed
  next
    case (Some res)
    from flag_irrelevant_one_way[OF Some, of ?g'] r1 Some show ?thesis by simp
  qed
qed

text \<open>
  C3, as the specification states it, fails: the loop does not stop when the upstream
  signals that no further page exists. Here the first page keeps one record and carries
  \<^verbatim>\<open>hasNextPage = false\<close>, and the loop requests a second page, at the first page's
  end cursor.
\<close>

theorem request_after_last_page:
  "map_option (\<lambda>p. (hasNextPage p, length (keep_page 50 (or_empty (nodes p)))))
     (last_page_upstream None) = Some (False, 1)
   \<and> map_option (\<lambda>res. (fst res, pages (snd res), cursor (snd res)))
       (fetch_loop 50 last_page_upstream (start None))
     = Some (None, 2, Some ''Y3Vyc29yOjI='')"
  by code_simp

text \<open>
  C3, amended. The loop requests further pages until a page yields zero in-window
  records, and that is its only stopping rule: after a page that keeps at least one
  record it requests the page at that page's end cursor, whatever the page says about
  further pages. The upstream's no-further-pages flag is never read: changing the flags
  of the pages in any way changes nothing in what the loop does. Records that fail the
  window test on a page are dropped without stopping the loop.
\<close>

theorem stops_only_on_page_without_kept_records:
  "fetch_loop since (\<lambda>c. map_option (\<lambda>p. p\<lparr>hasNextPage := flag c\<rparr>) (post_gql c)) st
   = fetch_loop since post_gql st
   \<and> (post_gql (cursor st) = Some pr_block \<longrightarrow>
        fetch_loop since post_gql st
        = (let rows' = rows st @ keep_page since (or_empty (nodes pr_block));
               saved' = (if (pages st + 1) mod 10 = 0 then Some rows' else saved st)
           in if keep_page since (or_empty (nodes pr_block)) = []
              then Some (None, \<lparr>rows = rows', cursor = cursor st, pages = pages st + 1,
                                saved = saved'\<rparr>)
              else fetch_loop since post_gql
                     \<lparr>rows = rows', cursor = endCursor pr_block, pages = pages st + 1,
                      saved = saved'\<rparr>))
   \<and> map number (keep_page since prs)
     = map n_number
         (filter (\<lambda>p. case n_mergedAt p of None \<Rightarrow> False | Some m \<Rightarrow> since \<le> m) prs)"
proof -
  have step: "post_gql (cursor st) = Some pr_block \<longrightarrow>
        fetch_loop since post_gql st
        = (let rows' = rows st @ keep_page since (or_empty (nodes pr_block));
               saved' = (if (pages st + 1) mod 10 = 0 then Some rows' else saved st)
           in if keep_page since (or_empty (nodes pr_block)) = []
              then Some (None, \<lparr>rows = rows', cursor = cursor st, pages = pages st + 1,
                                saved = saved'\<rparr>)
              else fetch_loop since post_gql
                     \<lparr>rows = rows', cursor = endCursor pr_block, pages = pages st + 1,
                      saved = saved'\<rparr>)"
    by (subst fetch_loop.simps) (simp add: Let_def)
  show ?thesis
    using flag_never_read[of since flag post_gql st] step keep_page_numbers[of since prs]
    by blast
qed

theorem stops_only_on_page_without_kept_records_witness:
  "map_option (\<lambda>res. (fst res, map number (rows (snd res)), pages (snd res)))
     (fetch_loop 50 (\<lambda>c. map_option (\<lambda>p. p\<lparr>hasNextPage := True\<rparr>) (last_page_upstream c))
        (start None))
   = Some (None, [7], 2)"
proof -
  have "map_option (\<lambda>res. (fst res, map number (rows (snd res)), pages (snd res)))
          (fetch_loop 50 last_page_upstream (start None)) = Some (None, [7], 2)"
    by code_simp
  then show ?thesis
    using stops_only_on_page_without_kept_records
      [of 50 "\<lambda>c. True" last_page_upstream "start None"]
    by simp
qed

subsection \<open>Flattening reviews\<close>

text \<open>
  C6, as the specification states it, fails: ingestion keeps a review that has no
  submission timestamp, and the frozen table holds it.
\<close>

theorem frozen_table_keeps_unsubmitted_review:
  "main_fetch 50 last_page_upstream None = Some (Inr [anon_row], Some [anon_row])
   \<and> map submittedAt (reviews anon_row) = [None, Some 50]"
  by code_simp

text \<open>
  C6, amended. During ingestion normalization each embedded review is flattened into
  reviewer identity, disposition and timestamp, and every review is kept, in order, also
  one that has no submission timestamp. Reviews with no submission timestamp are dropped
  by the scoring engine when it builds its review table, which holds one row for each
  review that has a submission timestamp and no other.
\<close>

theorem flatten_keeps_scoring_drops:
  "map reviewer (reviews (make_row pr merged_dt))
   = map (\<lambda>rv. login_or_unknown (rv_author rv)) (or_empty (n_reviews pr))
   \<and> map state (reviews (make_row pr merged_dt)) = map rv_state (or_empty (n_reviews pr))
   \<and> map submittedAt (reviews (make_row pr merged_dt))
     = map rv_submittedAt (or_empty (n_reviews pr))
   \<and> map rr_submittedAt (review_rows df) = List.map_filter submittedAt (concat (map reviews df))"
proof -
  have one: "map rr_submittedAt (pr_review_rows p rvs) = List.map_filter submittedAt rvs" for p rvs
    by (induction rvs) (auto simp: map_filter_simps split: option.splits)
  have "map rr_submittedAt (review_rows df) = List.map_filter submittedAt (concat (map reviews df))"
    by (induction df) (auto simp: review_rows_def one map_filter_def)
  then show ?thesis by (simp add: make_row_def flatten_review_def comp_def)
qed

theorem flatten_keeps_scoring_drops_witness:
  "map submittedAt (reviews (make_row anon_node 100)) = [None, Some 50]
   \<and> map rr_submittedAt (review_rows [anon_row]) = [50]"
proof -
  have a: "map rv_submittedAt (or_empty (n_reviews anon_node)) = [None, Some 50]" by code_simp
  have b: "List.map_filter submittedAt (concat (map reviews [anon_row])) = [50]" by code_simp
  show ?thesis
    using flatten_keeps_scoring_drops [of anon_node 100 "[anon_row]"] a b by simp
qed

subsection \<open>The final table\<close>

lemma set_iteration_set: "set_iteration f \<Longrightarrow> set (f xs) = set xs"
  by (metis set_iteration_def set_mset_mset)

lemma set_iteration_distinct: "set_iteration f \<Longrightarrow> distinct (f xs) = distinct xs"
  by (metis set_iteration_def mset_eq_imp_distinct_iff)

lemma engineers_of_set:
  "set (engineers_of (score_authored df) (score_reviews (review_rows df)))
   = author ` set df \<union> rr_reviewer ` set (review_rows df)"
  using score_authored_keys(1)[of df] score_reviews_keys[of "review_rows df"]
  by (simp add: engineers_of_def)

lemma pr_review_rows_reviewers:
  "rr_reviewer ` set (pr_review_rows pr rvs) = reviewer ` {rv \<in> set rvs. submittedAt rv \<noteq> None}"
  by (induction rvs) (auto split: option.splits)

lemma review_rows_reviewers:
  "rr_reviewer ` set (review_rows df)
   = {reviewer rv |pr rv. pr \<in> set df \<and> rv \<in> set (reviews pr) \<and> submittedAt rv \<noteq> None}"
proof -
  have "rr_reviewer ` set (review_rows df)
        = (\<Union>pr\<in>set df. rr_reviewer ` set (pr_review_rows pr (reviews pr)))"
    by (auto simp: review_rows_def)
  also have "\<dots> = (\<Union>pr\<in>set df. reviewer ` {rv \<in> set (reviews pr). submittedAt rv \<noteq> None})"
    by (simp add: pr_review_rows_reviewers)
  also have "\<dots> = {reviewer rv |pr rv. pr \<in> set df \<and> rv \<in> set (reviews pr) \<and> submittedAt rv \<noteq> None}"
    by auto
  finally show ?thesis .
qed

lemma main_score_rows:
  assumes "set_iteration set_order" and "main_score set_order df = Inr out"
  shows "mset out
         = image_mset (\<lambda>e. with_why (score_authored df) (score_reviews (review_rows df))
                          (engineer_row (score_authored df) (score_reviews (review_rows df)) e))
             (mset (engineers_of (score_authored df) (score_reviews (review_rows df))))"
proof -
  let ?a = "score_authored df" and ?r = "score_reviews (review_rows df)"
  from assms(2) have out: "out = map (with_why ?a ?r)
      (sort_values_desc impact_score (map (engineer_row ?a ?r) (set_order (engineers_of ?a ?r))))"
    by (simp add: main_score_def Let_def split: if_splits)
  have "mset (set_order (engineers_of ?a ?r)) = mset (engineers_of ?a ?r)"
    using assms(1) by (simp add: set_iteration_def)
  then have "mset out = image_mset (with_why ?a ?r) (image_mset (engineer_row ?a ?r) (mset (engineers_of ?a ?r)))"
    unfolding out sort_values_desc_def by simp
  then show ?thesis by (simp add: image_mset.compositionality comp_def)
qed

lemma engineer_with_why [simp]: "engineer (with_why a r row) = engineer row"
  "delivery (with_why a r row) = delivery row" "leadership (with_why a r row) = leadership row"
  "reviews_pts (with_why a r row) = reviews_pts row" "impact_score (with_why a r row) = impact_score row"
  by (simp_all add: with_why_def)

lemma engineer_row_sel [simp]: "engineer (engineer_row a r e) = e"
  "reviews_pts (engineer_row a r e) = float_of_int (dict_get (reviewer_scores r) e 0)"
  "delivery (engineer_row a r e) = (case map_of (author_breakdown a) e of None \<Rightarrow> 0 | Some bd \<Rightarrow> bd_delivery bd)"
  "leadership (engineer_row a r e) = (case map_of (author_breakdown a) e of None \<Rightarrow> 0 | Some bd \<Rightarrow> bd_leadership bd)"
  by (simp_all add: engineer_row_def Let_def)

lemma main_score_engineers:
  assumes "set_iteration set_order" and "main_score set_order df = Inr out"
  shows "mset (map engineer out) = mset (engineers_of (score_authored df) (score_reviews (review_rows df)))"
proof -
  have "mset (map engineer out) = image_mset engineer (mset out)" by simp
  also have "\<dots> = mset (engineers_of (score_authored df) (score_reviews (review_rows df)))"
    unfolding main_score_rows[OF assms] by (simp add: image_mset.compositionality comp_def)
  finally show ?thesis .
qed

lemma set_iteration_id: "set_iteration id"
  by (simp add: set_iteration_def)

lemma set_iteration_rev: "set_iteration rev"
  by (simp add: set_iteration_def)

text \<open>
  C7. The scored table has exactly one row for each contributor in the union of the
  record authors and the reviewers of reviews that have a submission timestamp. The row
  of a contributor who authored no record has delivery 0, leadership 0 and a positive
  reviews total.
\<close>

theorem one_row_per_contributor:
  assumes "set_iteration set_order" and "main_score set_order df = Inr out"
  shows "set (map engineer out)
         = author ` set df
           \<union> {reviewer rv |pr rv. pr \<in> set df \<and> rv \<in> set (reviews pr) \<and> submittedAt rv \<noteq> None}
         \<and> distinct (map engineer out)
         \<and> (\<forall>c\<in>set out. engineer c \<notin> author ` set df
               \<longrightarrow> delivery c = 0 \<and> leadership c = 0 \<and> 0 < reviews_pts c)"
proof -
  let ?a = "score_authored df" and ?r = "score_reviews (review_rows df)"
  have m: "mset (map engineer out) = mset (engineers_of ?a ?r)"
    by (rule main_score_engineers[OF assms])
  have "set (map engineer out) = set (engineers_of ?a ?r)"
    using m by (rule mset_eq_setD)
  then have universe: "set (map engineer out)
         = author ` set df
           \<union> {reviewer rv |pr rv. pr \<in> set df \<and> rv \<in> set (reviews pr) \<and> submittedAt rv \<noteq> None}"
    by (simp only: engineers_of_set review_rows_reviewers)
  have "distinct (engineers_of ?a ?r)" by (simp add: engineers_of_def)
  then have once: "distinct (map engineer out)"
    using m by (metis mset_eq_imp_distinct_iff)
  have only_reviewed: "delivery c = 0 \<and> leadership c = 0 \<and> 0 < reviews_pts c"
    if c: "c \<in> set out" and na: "engineer c \<notin> author ` set df" for c
  proof -
    from c have "c \<in># mset out" by simp
    then obtain e where e: "e \<in> set (engineers_of ?a ?r)"
      and ce: "c = with_why ?a ?r (engineer_row ?a ?r e)"
      unfolding main_score_rows[OF assms] by auto
    from ce have eng: "engineer c = e" by simp
    with na have "e \<notin> fst ` set (author_breakdown ?a)" by (simp add: score_authored_keys)
    then have none: "map_of (author_breakdown ?a) e = None" by (simp add: map_of_eq_None_iff)
    from e na eng have "e \<in> rr_reviewer ` set (review_rows df)" by (auto simp: engineers_of_set)
    then obtain rr where "rr \<in> set (review_rows df)" "rr_reviewer rr = e" by auto
    then have "2 \<le> dict_get (reviewer_scores ?r) e 0"
      unfolding score_reviews_sum by (rule sum_review_pts_ge)
    then have "(1::rat) \<le> of_int (dict_get (reviewer_scores ?r) e 0)" by simp
    then have "0 < float_of_int (dict_get (reviewer_scores ?r) e 0)"
      unfolding float_of_int_def by (rule double_round_pos)
    with none ce show ?thesis by simp
  qed
  from universe once only_reviewed show ?thesis by blast
qed

theorem one_row_per_contributor_witness:
  "main_score id [tie_pr] = Inr tie_scores
   \<and> map engineer tie_scores = [''alice'', ''bob'', ''carol'']
   \<and> map (\<lambda>c. (delivery c, leadership c, reviews_pts c)) (tl tie_scores) = [(0, 0, 2), (0, 0, 2)]"
proof -
  have run: "main_score id [tie_pr] = Inr tie_scores" by code_simp
  have rest: "map engineer tie_scores = [''alice'', ''bob'', ''carol'']"
    "map (\<lambda>c. (delivery c, leadership c, reviews_pts c)) (tl tie_scores) = [(0, 0, 2), (0, 0, 2)]"
    by (simp_all add: tie_scores_def)
  from one_row_per_contributor [OF set_iteration_id run] run rest show ?thesis by simp
qed

subsection \<open>Determinism\<close>

lemma filter_same_key:
  "distinct (map f zs) \<Longrightarrow> k \<in> set zs \<Longrightarrow> filter (\<lambda>x. f k = f x) zs = [k]"
proof (induction zs)
  case Nil then show ?case by simp
next
  case (Cons z zs)
  show ?case
  proof (cases "k = z")
    case True
    with Cons.prems have "filter (\<lambda>x. f k = f x) zs = []"
      by (auto simp: filter_empty_conv)
    with True show ?thesis by simp
  next
    case False
    with Cons.prems have kz: "k \<in> set zs" and dz: "distinct (map f zs)" and "f z \<notin> f ` set zs"
      by auto
    then have "f k \<noteq> f z" by (metis imageI)
    with Cons.IH[OF dz kz] show ?thesis by simp
  qed
qed

lemma sort_key_unique:
  assumes "mset xs = mset ys" and "distinct (map f xs)"
  shows "sort_key f xs = sort_key f ys"
proof (rule properties_for_sort_key)
  show "mset (sort_key f ys) = mset xs" using assms(1) by simp
  show "sorted (map f (sort_key f ys))" by simp
  fix k assume k: "k \<in> set (sort_key f ys)"
  have "mset (map f (sort_key f ys)) = mset (map f xs)" using assms(1) by simp
  with assms(2) have d: "distinct (map f (sort_key f ys))" by (metis mset_eq_imp_distinct_iff)
  from k assms(1) have kx: "k \<in> set xs" by (metis set_sort mset_eq_setD)
  show "filter (\<lambda>x. f k = f x) (sort_key f ys) = filter (\<lambda>x. f k = f x) xs"
    by (simp only: filter_same_key[OF d k] filter_same_key[OF assms(2) kx])
qed

lemma distinct_map_uminus: "distinct (map (\<lambda>x. - (f x :: rat)) xs) = distinct (map f xs)"
proof -
  have "map (\<lambda>x. - f x) xs = map uminus (map f xs)" by simp
  then show ?thesis by (simp only: distinct_map) (auto simp: inj_on_def)
qed

text \<open>
  C9, as the specification states it, fails on the row order: the rows are built by
  iterating over a set of strings, whose order differs between two runs of the program,
  and the sort by total keeps tied rows in the order it found them. Under two
  enumerations of the same set, the table with two tied reviewers is written in two
  different orders.
\<close>

theorem tied_rows_follow_set_order:
  "set_iteration id \<and> set_iteration rev
   \<and> map_sum id (map (\<lambda>c. (engineer c, impact_score c))) (main_score id [tie_pr])
     = Inr [(''alice'', 4756927106410087 / 2 ^ 48), (''bob'', 2), (''carol'', 2)]
   \<and> map_sum id (map (\<lambda>c. (engineer c, impact_score c))) (main_score rev [tie_pr])
     = Inr [(''alice'', 4756927106410087 / 2 ^ 48), (''carol'', 2), (''bob'', 2)]"
proof -
  have a: "set_iteration id" "set_iteration rev" by (simp_all add: set_iteration_def)
  have b: "map_sum id (map (\<lambda>c. (engineer c, impact_score c))) (main_score id [tie_pr])
     = Inr [(''alice'', 4756927106410087 / 2 ^ 48), (''bob'', 2), (''carol'', 2)]" by code_simp
  have c: "map_sum id (map (\<lambda>c. (engineer c, impact_score c))) (main_score rev [tie_pr])
     = Inr [(''alice'', 4756927106410087 / 2 ^ 48), (''carol'', 2), (''bob'', 2)]" by code_simp
  from a b c show ?thesis by simp
qed

text \<open>
  C9, amended. Running the scoring engine twice on an unchanged table yields the same
  rows (same contributors, same four point totals, same evidence bullets), sorted by
  descending total score, or fails both times; the row order is the same in both runs
  when no two contributors have the same total score, and the order among contributors
  with equal totals may differ.
\<close>

theorem rows_do_not_depend_on_set_order:
  assumes "set_iteration o1" and "set_iteration o2"
  shows "map_sum id mset (main_score o1 df) = map_sum id mset (main_score o2 df)
         \<and> (\<forall>out. main_score o1 df = Inr out
               \<longrightarrow> sorted_wrt (\<lambda>c d. impact_score d \<le> impact_score c) out)
         \<and> (\<forall>out. main_score o1 df = Inr out \<and> distinct (map impact_score out)
               \<longrightarrow> main_score o2 df = Inr out)"
proof -
  let ?a = "score_authored df" and ?r = "score_reviews (review_rows df)"
  let ?E = "engineers_of ?a ?r"
  let ?rows = "\<lambda>ord. map (engineer_row ?a ?r) (ord ?E)"
  let ?key = "\<lambda>x. - impact_score x"
  have ms: "main_score ord df
            = (if ?rows ord = [] then Inl KeyError
               else Inr (map (with_why ?a ?r) (sort_key ?key (?rows ord))))" for ord
    by (simp add: main_score_def Let_def sort_values_desc_def)
  have m: "mset (?rows o1) = mset (?rows o2)"
    using assms by (simp add: set_iteration_def)
  then have e: "?rows o1 = [] \<longleftrightarrow> ?rows o2 = []" by (metis mset_zero_iff)
  have same: "map_sum id mset (main_score o1 df) = map_sum id mset (main_score o2 df)"
    using m e unfolding ms by (simp del: map_map mset_map add: mset_map[symmetric]) (simp)
  have srt: "sorted_wrt (\<lambda>c d. impact_score d \<le> impact_score c) out"
    if "main_score o1 df = Inr out" for out
  proof -
    from that have out: "out = map (with_why ?a ?r) (sort_key ?key (?rows o1))"
      unfolding ms by (simp split: if_splits)
    have "sorted (map ?key (sort_key ?key (?rows o1)))" by simp
    then have "sorted_wrt (\<lambda>c d. impact_score d \<le> impact_score c) (sort_key ?key (?rows o1))"
      by (simp add: sorted_map)
    then show ?thesis unfolding out by (simp add: sorted_wrt_map)
  qed
  have det: "main_score o2 df = Inr out"
    if "main_score o1 df = Inr out" and d: "distinct (map impact_score out)" for out
  proof -
    from that(1) have ne: "?rows o1 \<noteq> []"
      and out: "out = map (with_why ?a ?r) (sort_key ?key (?rows o1))"
      unfolding ms by (simp_all split: if_splits)
    have "map impact_score out = map impact_score (sort_key ?key (?rows o1))"
      unfolding out by (simp add: comp_def)
    with d have "distinct (map impact_score (sort_key ?key (?rows o1)))" by simp
    moreover have "mset (map impact_score (sort_key ?key (?rows o1))) = mset (map impact_score (?rows o1))"
      by (simp only: mset_map mset_sort)
    ultimately have "distinct (map impact_score (?rows o1))" by (metis mset_eq_imp_distinct_iff)
    then have "distinct (map ?key (?rows o1))" by (simp only: distinct_map_uminus)
    from sort_key_unique[OF m this] have "sort_key ?key (?rows o1) = sort_key ?key (?rows o2)" .
    with ne e out show ?thesis unfolding ms by simp
  qed
  from same srt det show ?thesis by blast
qed

theorem rows_do_not_depend_on_set_order_witness:
  "main_score id [ranked_pr] = Inr ranked_scores \<and> main_score rev [ranked_pr] = Inr ranked_scores"
proof -
  have run: "main_score id [ranked_pr] = Inr ranked_scores" by code_simp
  have d: "distinct (map impact_score ranked_scores)" by (simp add: ranked_scores_def)
  from rows_do_not_depend_on_set_order [OF set_iteration_id set_iteration_rev, of "[ranked_pr]"] run d
  show ?thesis by blast
qed

subsection \<open>Anonymous activity\<close>



end
